theory Spec2Isabelle
  imports Complex_Main "HOL-Library.AList"
begin

section \<open>Data model of the RIP simulator (Lab 8, main.py)\<close>

text \<open>
  The enumerations of the source become datatypes, its dataclasses records. A route cost
  is a Python integer or the float \<open>inf\<close>; clock readings (\<open>time.time()\<close>) are modelled
  as reals and handed to every operation as the argument \<open>now\<close>, which also stands
  for the clock reading taken by the \<open>RouteEntry\<close> constructor during that call.
  Dictionaries that the source iterates over (routing table, neighbour table, received
  vector) are association lists in insertion order; the hold-down and distance-vector
  dictionaries, which are only read and written by key, are maps.
\<close>

datatype LinkStatus = UP | DOWN

datatype RouteStatus = VALID | INVALID | GARBAGE

datatype ConvergenceState = CONVERGING | CONVERGED | DIVERGING

datatype MessageType = REGULAR | POISON_REVERSE | TRIGGERED

datatype Cost = Fin int | Infty

record Message =
  source :: string
  msg_destination :: string
  msg_distance_vector :: "(string \<times> Cost) list"
  timestamp :: real
  message_id :: string
  message_type :: MessageType
  poison_reverse_routes :: "string set"

record Link =
  router1 :: string
  router2 :: string
  link_cost :: int
  link_status :: LinkStatus
  propagation_delay :: real
  packet_loss_rate :: real
  last_failure_time :: real

record RouteEntry =
  destination :: string
  cost :: Cost
  next_hop :: "string option"
  status :: RouteStatus
  last_update_time :: real
  timeout_time :: real
  garbage_time :: real

record NetworkStats =
  last_route_change_time :: real
  total_route_changes :: int
  total_messages :: int
  poison_reverse_messages :: int
  convergence_state :: ConvergenceState
  convergence_detected_at :: real
  periodic_updates_enabled :: bool

record AsyncRouter =
  router_id :: string
  neighbors :: "(string \<times> Link) list"
  routing_table :: "(string \<times> RouteEntry) list"
  distance_vector :: "string \<rightharpoonup> Cost"
  hold_down_routes :: "string \<rightharpoonup> real"
  last_periodic_update :: real
  last_triggered_update :: real
  periodic_interval :: real

record AsyncNetwork =
  routers :: "(string \<times> AsyncRouter) list"
  links :: "((string \<times> string) \<times> Link) list"
  stats :: NetworkStats

subsection \<open>RIPTimers\<close>

definition ROUTE_TIMEOUT :: real where
  "ROUTE_TIMEOUT = 90"

definition GARBAGE_COLLECTION :: real where
  "GARBAGE_COLLECTION = 60"

definition HOLD_DOWN :: real where
  "HOLD_DOWN = 90"

definition MIN_TRIGGERED_INTERVAL :: real where
  "MIN_TRIGGERED_INTERVAL = 5 / 2"

subsection \<open>Costs\<close>

text \<open>Python's \<open><\<close> between integers and \<open>inf\<close>.\<close>

fun cost_less :: "Cost \<Rightarrow> Cost \<Rightarrow> bool" where
  "cost_less (Fin a) (Fin b) = (a < b)"
| "cost_less (Fin a) Infty = True"
| "cost_less Infty c = False"

text \<open>
  \<open>new_cost = (inf if neighbor_cost_to_dest == inf else neighbor_cost + neighbor_cost_to_dest)\<close>
\<close>

fun new_cost_of :: "int \<Rightarrow> Cost \<Rightarrow> Cost" where
  "new_cost_of neighbor_cost Infty = Infty"
| "new_cost_of neighbor_cost (Fin c) = Fin (neighbor_cost + c)"

subsection \<open>Link and RouteEntry\<close>

definition is_operational :: "Link \<Rightarrow> bool" where
  "is_operational l = (link_status l = UP)"

text \<open>The dataclass constructor followed by \<open>__post_init__\<close>.\<close>

definition RouteEntry_init ::
  "real \<Rightarrow> string \<Rightarrow> Cost \<Rightarrow> string option \<Rightarrow> RouteStatus \<Rightarrow> RouteEntry" where
  "RouteEntry_init now dest c nh st =
     \<lparr>destination = dest, cost = c, next_hop = nh, status = st,
      last_update_time = now, timeout_time = 0, garbage_time = 0\<rparr>"

definition NetworkStats_init :: NetworkStats where
  "NetworkStats_init =
     \<lparr>last_route_change_time = 0, total_route_changes = 0, total_messages = 0,
      poison_reverse_messages = 0, convergence_state = CONVERGING,
      convergence_detected_at = 0, periodic_updates_enabled = True\<rparr>"

section \<open>AsyncRouter\<close>

subsection \<open>initialize_routing_table\<close>

text \<open>Body of the first loop: one destination of \<open>all_routers\<close>.\<close>

definition init_dest :: "real \<Rightarrow> string \<Rightarrow> AsyncRouter \<Rightarrow> AsyncRouter" where
  "init_dest now dest r =
     (let entry = (if dest = router_id r
                   then RouteEntry_init now dest (Fin 0) (Some (router_id r)) VALID
                   else RouteEntry_init now dest Infty None INVALID)
      in r\<lparr>routing_table := AList.update dest entry (routing_table r),
           distance_vector := (distance_vector r)(dest \<mapsto> cost entry)\<rparr>)"

text \<open>Body of the second loop: one item of \<open>self.neighbors\<close>.\<close>

definition init_neighbor :: "real \<Rightarrow> string \<times> Link \<Rightarrow> AsyncRouter \<Rightarrow> AsyncRouter" where
  "init_neighbor now item r =
     (case item of (neighbor_id, link) \<Rightarrow>
        if is_operational link then
          (case map_of (routing_table r) neighbor_id of
             None \<Rightarrow> r
           | Some entry \<Rightarrow>
               r\<lparr>routing_table :=
                    AList.update neighbor_id
                      (entry\<lparr>cost := Fin (link_cost link), next_hop := Some neighbor_id,
                             status := VALID, last_update_time := now\<rparr>)
                      (routing_table r),
                 distance_vector := (distance_vector r)(neighbor_id \<mapsto> Fin (link_cost link))\<rparr>)
        else r)"

definition initialize_routing_table :: "real \<Rightarrow> string list \<Rightarrow> AsyncRouter \<Rightarrow> AsyncRouter" where
  "initialize_routing_table now all_routers r =
     fold (init_neighbor now) (neighbors r) (fold (init_dest now) all_routers r)"

subsection \<open>get_distance_vector_for_neighbor\<close>

text \<open>
  The loop state is the vector built so far, the poison set and the hold-down map (an
  expired hold-down is deleted when its destination is visited).
\<close>

definition dv_entry ::
  "real \<Rightarrow> string \<Rightarrow> string \<Rightarrow> string \<times> RouteEntry \<Rightarrow>
   (string \<times> Cost) list \<times> string set \<times> (string \<rightharpoonup> real) \<Rightarrow>
   (string \<times> Cost) list \<times> string set \<times> (string \<rightharpoonup> real)" where
  "dv_entry now self neighbor_id item s =
     (case item of (dest, entry) \<Rightarrow> case s of (vector, poison_routes, hold) \<Rightarrow>
        if status entry = GARBAGE then s
        else
          let poisoned = (next_hop entry = Some neighbor_id \<and> dest \<noteq> self);
              c = (if poisoned then Infty else cost entry);
              poison_routes' = (if poisoned then insert dest poison_routes else poison_routes)
          in (case hold dest of
                Some expiry \<Rightarrow>
                  if now < expiry then (vector, poison_routes', hold)
                  else (AList.update dest c vector, poison_routes', hold(dest := None))
              | None \<Rightarrow> (AList.update dest c vector, poison_routes', hold)))"

definition get_distance_vector_for_neighbor ::
  "real \<Rightarrow> string \<Rightarrow> AsyncRouter \<Rightarrow> ((string \<times> Cost) list \<times> string set) \<times> AsyncRouter" where
  "get_distance_vector_for_neighbor now neighbor_id r =
     (case fold (dv_entry now (router_id r) neighbor_id) (routing_table r)
             ([], {}, hold_down_routes r) of
        (vector, poison_routes, hold) \<Rightarrow>
          ((vector, poison_routes), r\<lparr>hold_down_routes := hold\<rparr>))"

subsection \<open>update_routing_table and process_message\<close>

text \<open>The block under \<open>if route_changed:\<close>, together with the writes to the entry.\<close>

definition route_changed ::
  "real \<Rightarrow> string \<Rightarrow> RouteEntry \<Rightarrow> (string \<times> RouteEntry) list \<Rightarrow> (string \<rightharpoonup> real) \<Rightarrow>
   AsyncRouter \<Rightarrow> NetworkStats \<Rightarrow> bool \<times> AsyncRouter \<times> NetworkStats" where
  "route_changed now dest entry table hold r st =
     (True,
      r\<lparr>routing_table := AList.update dest entry table,
        distance_vector := (distance_vector r)(dest \<mapsto> cost entry),
        hold_down_routes := hold\<rparr>,
      st\<lparr>last_route_change_time := now,
         total_route_changes := total_route_changes st + 1,
         convergence_state := CONVERGING\<rparr>)"

text \<open>Body of the loop over \<open>received_vector.items()\<close>.\<close>

definition update_route ::
  "real \<Rightarrow> string \<Rightarrow> int \<Rightarrow> string \<times> Cost \<Rightarrow>
   bool \<times> AsyncRouter \<times> NetworkStats \<Rightarrow> bool \<times> AsyncRouter \<times> NetworkStats" where
  "update_route now from_neighbor neighbor_cost item s =
     (case item of (dest, neighbor_cost_to_dest) \<Rightarrow> case s of (updated, r, st) \<Rightarrow>
        if dest = router_id r then s
        else
          let new_cost = new_cost_of neighbor_cost neighbor_cost_to_dest;
              fresh = RouteEntry_init now dest Infty None INVALID;
              table = (case map_of (routing_table r) dest of
                         None \<Rightarrow> AList.update dest fresh (routing_table r)
                       | Some e \<Rightarrow> routing_table r);
              entry = (case map_of (routing_table r) dest of None \<Rightarrow> fresh | Some e \<Rightarrow> e);
              old_cost = cost entry
          in if next_hop entry = Some from_neighbor then
               (if new_cost \<noteq> old_cost then
                  (let entry1 = entry\<lparr>cost := new_cost, last_update_time := now,
                                      timeout_time := now + ROUTE_TIMEOUT\<rparr>
                   in if new_cost = Infty then
                        route_changed now dest
                          (entry1\<lparr>status := INVALID,
                                  garbage_time := now + GARBAGE_COLLECTION\<rparr>)
                          table ((hold_down_routes r)(dest \<mapsto> now + HOLD_DOWN)) r st
                      else
                        route_changed now dest
                          (entry1\<lparr>status := VALID, garbage_time := 0\<rparr>)
                          table (hold_down_routes r) r st)
                else (updated, r\<lparr>routing_table := table\<rparr>, st))
             else if cost_less new_cost (cost entry) \<and> new_cost \<noteq> Infty then
               (if hold_down_routes r dest = None then
                  route_changed now dest
                    (entry\<lparr>cost := new_cost, next_hop := Some from_neighbor, status := VALID,
                           last_update_time := now, timeout_time := now + ROUTE_TIMEOUT,
                           garbage_time := 0\<rparr>)
                    table (hold_down_routes r) r st
                else (updated, r\<lparr>routing_table := table\<rparr>, st))
             else (updated, r\<lparr>routing_table := table\<rparr>, st))"

text \<open>The refresh of the sending neighbour's own row, before the loop.\<close>

definition refresh_neighbor :: "real \<Rightarrow> string \<Rightarrow> AsyncRouter \<Rightarrow> AsyncRouter" where
  "refresh_neighbor now from_neighbor r =
     (case map_of (routing_table r) from_neighbor of
        None \<Rightarrow> r
      | Some e \<Rightarrow>
          r\<lparr>routing_table :=
               AList.update from_neighbor
                 (e\<lparr>last_update_time := now, timeout_time := now + ROUTE_TIMEOUT\<rparr>)
                 (routing_table r)\<rparr>)"

definition update_routing_table ::
  "real \<Rightarrow> string \<Rightarrow> (string \<times> Cost) list \<Rightarrow> AsyncRouter \<times> NetworkStats \<Rightarrow>
   bool \<times> AsyncRouter \<times> NetworkStats" where
  "update_routing_table now from_neighbor received_vector s =
     (case s of (r, st) \<Rightarrow>
        (case map_of (neighbors r) from_neighbor of
           None \<Rightarrow> (False, r, st)
         | Some link \<Rightarrow>
             fold (update_route now from_neighbor (link_cost link)) received_vector
               (False, refresh_neighbor now from_neighbor r, st)))"

definition process_message ::
  "real \<Rightarrow> Message \<Rightarrow> AsyncRouter \<times> NetworkStats \<Rightarrow> bool \<times> AsyncRouter \<times> NetworkStats" where
  "process_message now message s =
     (case s of (r, st) \<Rightarrow>
        (case map_of (neighbors r) (source message) of
           None \<Rightarrow> (False, r, st)
         | Some link \<Rightarrow>
             if \<not> is_operational link then (False, r, st)
             else update_routing_table now (source message) (msg_distance_vector message) s))"

subsection \<open>send_triggered_update\<close>

text \<open>
  Handing an advertisement to \<open>send_message\<close> (loss draw, message counters, propagation
  delay, delivery queue) is not part of this development: the advertisements built for the
  operational neighbours are returned as a list, with the router state they leave behind.
\<close>

type_synonym advertisement = "string \<times> (string \<times> Cost) list \<times> string set"

definition advertise ::
  "real \<Rightarrow> string \<Rightarrow> advertisement list \<times> AsyncRouter \<Rightarrow> advertisement list \<times> AsyncRouter" where
  "advertise now neighbor_id s =
     (case s of (out, r) \<Rightarrow>
        (case map_of (neighbors r) neighbor_id of
           None \<Rightarrow> s
         | Some link \<Rightarrow>
             if is_operational link then
               (case get_distance_vector_for_neighbor now neighbor_id r of
                  ((dv, poison_routes), r') \<Rightarrow> (out @ [(neighbor_id, dv, poison_routes)], r'))
             else s))"

definition send_triggered_update :: "real \<Rightarrow> AsyncRouter \<Rightarrow> advertisement list \<times> AsyncRouter" where
  "send_triggered_update now r =
     (if now - last_triggered_update r < MIN_TRIGGERED_INTERVAL then ([], r)
      else (case fold (advertise now) (map fst (neighbors r)) ([], r) of
              (out, r') \<Rightarrow> (out, r'\<lparr>last_triggered_update := now\<rparr>)))"

subsection \<open>Loops that mutate the visited entries in place\<close>

text \<open>
  \<open>for dest, entry in self.routing_table.items(): ...\<close> where the body assigns to fields
  of \<open>entry\<close>: the table keeps its keys and their order, every visited entry is replaced
  by what the body makes of it, and the rest of the loop state is threaded through.
\<close>

fun for_entries ::
  "(string \<times> RouteEntry \<Rightarrow> 's \<Rightarrow> RouteEntry \<times> 's) \<Rightarrow> (string \<times> RouteEntry) list \<Rightarrow> 's \<Rightarrow>
   (string \<times> RouteEntry) list \<times> 's" where
  "for_entries f [] s = ([], s)"
| "for_entries f ((dest, entry) # rest) s =
     (case f (dest, entry) s of
        (entry', s') \<Rightarrow>
          (case for_entries f rest s' of
             (rest', s'') \<Rightarrow> ((dest, entry') # rest', s'')))"

subsection \<open>check_timeouts\<close>

type_synonym sweep_state = "(string \<rightharpoonup> Cost) \<times> (string \<rightharpoonup> real) \<times> bool"

definition timeout_entry ::
  "real \<Rightarrow> string \<Rightarrow> string \<times> RouteEntry \<Rightarrow> sweep_state \<Rightarrow> RouteEntry \<times> sweep_state" where
  "timeout_entry now self item s =
     (case item of (dest, entry) \<Rightarrow> case s of (dv, hold, routes_changed) \<Rightarrow>
        if dest = self then (entry, s)
        else if status entry = VALID \<and> timeout_time entry > 0 \<and> now > timeout_time entry then
          (entry\<lparr>status := INVALID, cost := Infty,
                 garbage_time := now + GARBAGE_COLLECTION\<rparr>,
           (dv(dest \<mapsto> Infty), hold(dest \<mapsto> now + HOLD_DOWN), True))
        else if status entry = INVALID \<and> garbage_time entry > 0 \<and> now > garbage_time entry then
          (entry\<lparr>status := GARBAGE\<rparr>, (dv, hold, True))
        else (entry, s))"

definition check_timeouts ::
  "real \<Rightarrow> AsyncRouter \<times> NetworkStats \<Rightarrow> advertisement list \<times> AsyncRouter \<times> NetworkStats" where
  "check_timeouts now s =
     (case s of (r, st) \<Rightarrow>
        (case for_entries (timeout_entry now (router_id r)) (routing_table r)
                (distance_vector r, hold_down_routes r, False) of
           (table, dv, hold, routes_changed) \<Rightarrow>
             (let r1 = r\<lparr>routing_table := table, distance_vector := dv,
                          hold_down_routes := hold\<rparr>
              in if routes_changed then
                   (case send_triggered_update now r1 of
                      (out, r2) \<Rightarrow>
                        (out, r2, st\<lparr>last_route_change_time := now,
                                      convergence_state := CONVERGING\<rparr>))
                 else ([], r1, st))))"

subsection \<open>handle_link_failure and handle_link_recovery\<close>

definition fail_entry ::
  "real \<Rightarrow> string \<Rightarrow> string \<Rightarrow> string \<times> RouteEntry \<Rightarrow> sweep_state \<Rightarrow> RouteEntry \<times> sweep_state" where
  "fail_entry now self neighbor_id item s =
     (case item of (dest, entry) \<Rightarrow> case s of (dv, hold, routes_changed) \<Rightarrow>
        if next_hop entry = Some neighbor_id \<and> dest \<noteq> self then
          (entry\<lparr>cost := Infty, status := INVALID,
                 garbage_time := now + GARBAGE_COLLECTION\<rparr>,
           (dv(dest \<mapsto> Infty), hold(dest \<mapsto> now + HOLD_DOWN), True))
        else (entry, s))"

definition handle_link_failure ::
  "real \<Rightarrow> string \<Rightarrow> AsyncRouter \<times> NetworkStats \<Rightarrow>
   advertisement list \<times> AsyncRouter \<times> NetworkStats" where
  "handle_link_failure now neighbor_id s =
     (case s of (r, st) \<Rightarrow>
        (case map_of (neighbors r) neighbor_id of
           None \<Rightarrow> ([], r, st)
         | Some link \<Rightarrow>
             (case for_entries (fail_entry now (router_id r) neighbor_id) (routing_table r)
                     (distance_vector r, hold_down_routes r, False) of
                (table, dv, hold, routes_changed) \<Rightarrow>
                  (let r1 = r\<lparr>routing_table := table, distance_vector := dv,
                               hold_down_routes := hold\<rparr>
                   in if routes_changed then
                        (case send_triggered_update now r1 of
                           (out, r2) \<Rightarrow>
                             (out, r2, st\<lparr>last_route_change_time := now,
                                           convergence_state := CONVERGING\<rparr>))
                      else ([], r1, st)))))"

definition handle_link_recovery ::
  "real \<Rightarrow> string \<Rightarrow> int \<Rightarrow> AsyncRouter \<times> NetworkStats \<Rightarrow>
   advertisement list \<times> AsyncRouter \<times> NetworkStats" where
  "handle_link_recovery now neighbor_id new_cost s =
     (case s of (r, st) \<Rightarrow>
        (case map_of (neighbors r) neighbor_id of
           None \<Rightarrow> ([], r, st)
         | Some link \<Rightarrow>
             (case map_of (routing_table r) neighbor_id of
                None \<Rightarrow> ([], r, st)
              | Some entry \<Rightarrow>
                  (let r1 = r\<lparr>routing_table :=
                                 AList.update neighbor_id
                                   (entry\<lparr>cost := Fin new_cost, next_hop := Some neighbor_id,
                                          status := VALID, last_update_time := now,
                                          timeout_time := now + ROUTE_TIMEOUT\<rparr>)
                                   (routing_table r),
                               distance_vector := (distance_vector r)(neighbor_id \<mapsto> Fin new_cost)\<rparr>
                   in (case send_triggered_update now r1 of
                         (out, r2) \<Rightarrow>
                           (out, r2, st\<lparr>last_route_change_time := now,
                                         convergence_state := CONVERGING\<rparr>))))))"

section \<open>AsyncNetwork\<close>

text \<open>
  A \<open>Link\<close> object is shared by the two entries of \<open>links\<close> that name it and by the
  neighbour tables of its two end points. The model keeps a copy at each of these places
  and writes a mutation of the object to all of them.
\<close>

definition initialize_routing_tables :: "real \<Rightarrow> AsyncNetwork \<Rightarrow> AsyncNetwork" where
  "initialize_routing_tables now net =
     (let all_router_ids = map fst (routers net)
      in net\<lparr>routers :=
               map (\<lambda>(k, router). (k, initialize_routing_table now all_router_ids router))
                 (routers net)\<rparr>)"

definition link_up :: "Link \<Rightarrow> Link" where
  "link_up l = l\<lparr>link_status := UP\<rparr>"

definition restart_simulation :: "real \<Rightarrow> AsyncNetwork \<Rightarrow> AsyncNetwork" where
  "restart_simulation now net =
     (let net1 = net\<lparr>stats := NetworkStats_init\<lparr>periodic_updates_enabled := True\<rparr>\<rparr>;
          net2 = initialize_routing_tables now net1
      in net2\<lparr>links := map (\<lambda>(k, l). (k, link_up l)) (links net2),
               routers :=
                 map (\<lambda>(k, router).
                        (k, router\<lparr>neighbors := map (\<lambda>(n, l). (n, link_up l)) (neighbors router)\<rparr>))
                   (routers net2)\<rparr>)"

section \<open>Auxiliary notions for the proofs\<close>

text \<open>
  An item \<open>(dest, advertised)\<close> of a vector from neighbour \<open>n\<close> over a link of cost
  \<open>nc\<close> is settled in a router when the loop body of \<open>update_routing_table\<close> takes
  neither of its two changing branches on it.
\<close>

definition settled :: "string \<Rightarrow> int \<Rightarrow> AsyncRouter \<Rightarrow> string \<times> Cost \<Rightarrow> bool" where
  "settled n nc r item =
     (case item of (dest, advertised) \<Rightarrow>
        dest = router_id r \<or>
        (let new_cost = new_cost_of nc advertised;
             entry = (case map_of (routing_table r) dest of
                        None \<Rightarrow> RouteEntry_init 0 dest Infty None INVALID
                      | Some e \<Rightarrow> e)
         in if next_hop entry = Some n then new_cost = cost entry
            else \<not> (cost_less new_cost (cost entry) \<and> new_cost \<noteq> Infty) \<or>
                 hold_down_routes r dest \<noteq> None))"

text \<open>All finite costs of a table are non-negative.\<close>

fun cost_nonneg :: "Cost \<Rightarrow> bool" where
  "cost_nonneg (Fin c) = (0 \<le> c)"
| "cost_nonneg Infty = True"

definition costs_nonneg :: "(string \<times> RouteEntry) list \<Rightarrow> bool" where
  "costs_nonneg table = list_all (\<lambda>(dest, entry). cost_nonneg (cost entry)) table"

text \<open>The self route of the specification: cost 0, next hop self, VALID.\<close>

definition self_route_ok :: "AsyncRouter \<Rightarrow> bool" where
  "self_route_ok r =
     (case map_of (routing_table r) (router_id r) of
        None \<Rightarrow> False
      | Some e \<Rightarrow> cost e = Fin 0 \<and> next_hop e = Some (router_id r) \<and> status e = VALID)"

text \<open>
  The two kinds of row that \<open>initialize_routing_table\<close> writes: the row of its first loop
  and what its second loop makes of the row of an operational neighbour.
\<close>

definition base_entry :: "real \<Rightarrow> string \<Rightarrow> string \<Rightarrow> RouteEntry" where
  "base_entry now self dest =
     (if dest = self then RouteEntry_init now dest (Fin 0) (Some self) VALID
      else RouteEntry_init now dest Infty None INVALID)"

definition direct_entry :: "real \<Rightarrow> string \<Rightarrow> Link \<Rightarrow> RouteEntry \<Rightarrow> RouteEntry" where
  "direct_entry now neighbor_id link entry =
     entry\<lparr>cost := Fin (link_cost link), next_hop := Some neighbor_id, status := VALID,
           last_update_time := now\<rparr>"

text \<open>The self route together with the absence of a link from the router to itself.\<close>

definition self_inv :: "AsyncRouter \<Rightarrow> bool" where
  "self_inv r = (self_route_ok r \<and> map_of (neighbors r) (router_id r) = None)"

text \<open>
  The states a router can be in: it has been initialised, with its own identifier among
  \<open>all_routers\<close> (as \<open>initialize_routing_tables\<close> calls it) and no link to itself, and has
  since processed messages, swept its timers, handled link failures and recoveries, built
  advertisements, and seen its links change status or cost.
\<close>

inductive reachable :: "AsyncRouter \<Rightarrow> bool" where
  initialized:
    "router_id r \<in> set all_routers \<Longrightarrow> map_of (neighbors r) (router_id r) = None \<Longrightarrow>
     reachable (initialize_routing_table now all_routers r)"
| message: "reachable r \<Longrightarrow> reachable (fst (snd (process_message now m (r, st))))"
| swept: "reachable r \<Longrightarrow> reachable (fst (snd (check_timeouts now (r, st))))"
| link_failed: "reachable r \<Longrightarrow> reachable (fst (snd (handle_link_failure now n (r, st))))"
| link_recovered: "reachable r \<Longrightarrow> reachable (fst (snd (handle_link_recovery now n c (r, st))))"
| advertised: "reachable r \<Longrightarrow> reachable (snd (get_distance_vector_for_neighbor now n r))"
| link_changed: "reachable r \<Longrightarrow> map fst ns = map fst (neighbors r) \<Longrightarrow> reachable (r\<lparr>neighbors := ns\<rparr>)"


section \<open>Example states\<close>

text \<open>
  The \<open>Link\<close> and \<open>AsyncRouter\<close> constructors with the defaults of the source, and the
  router \<open>A\<close> of the topology of \<open>load_default_topology\<close>, with its links to \<open>B\<close> (cost 2)
  and \<open>C\<close> (cost 5).
\<close>

definition Link_init :: "string \<Rightarrow> string \<Rightarrow> int \<Rightarrow> Link" where
  "Link_init r1 r2 c =
     \<lparr>router1 = r1, router2 = r2, link_cost = c, link_status = UP,
      propagation_delay = 1 / 100, packet_loss_rate = 0, last_failure_time = 0\<rparr>"

definition AsyncRouter_init :: "string \<Rightarrow> real \<Rightarrow> AsyncRouter" where
  "AsyncRouter_init rid interval =
     \<lparr>router_id = rid, neighbors = [], routing_table = [], distance_vector = Map.empty,
      hold_down_routes = Map.empty, last_periodic_update = 0, last_triggered_update = 0,
      periodic_interval = interval\<rparr>"

definition add_neighbor :: "string \<Rightarrow> Link \<Rightarrow> AsyncRouter \<Rightarrow> AsyncRouter" where
  "add_neighbor neighbor_id link r = r\<lparr>neighbors := AList.update neighbor_id link (neighbors r)\<rparr>"

definition router_A :: AsyncRouter where
  "router_A =
     add_neighbor ''C'' (Link_init ''A'' ''C'' 5)
       (add_neighbor ''B'' (Link_init ''A'' ''B'' 2) (AsyncRouter_init ''A'' 15))"

definition all_ids :: "string list" where
  "all_ids = [''A'', ''B'', ''C'', ''D'']"

text \<open>
  \<open>link.status = ...\<close> on the shared \<open>Link\<close> object, as the neighbour table of one end
  point sees it.
\<close>

definition mark_link :: "string \<Rightarrow> LinkStatus \<Rightarrow> AsyncRouter \<Rightarrow> AsyncRouter" where
  "mark_link n s r =
     r\<lparr>neighbors := map (\<lambda>(k, l). if k = n then (k, l\<lparr>link_status := s\<rparr>) else (k, l)) (neighbors r)\<rparr>"

text \<open>
  Router \<open>A\<close> after initialisation at time 0; after it has then learned a route to \<open>D\<close>
  from \<open>B\<close> at time 10; and after the link to \<open>B\<close> has then failed at time 30.
\<close>

definition router_A_ready :: AsyncRouter where
  "router_A_ready = initialize_routing_table 0 all_ids router_A"

definition router_A_via_B :: AsyncRouter where
  "router_A_via_B =
     fst (snd (update_routing_table 10 ''B'' [(''D'', Fin 3)] (router_A_ready, NetworkStats_init)))"

definition router_A_held :: AsyncRouter where
  "router_A_held =
     fst (snd (handle_link_failure 30 ''B'' (mark_link ''B'' DOWN router_A_via_B, NetworkStats_init)))"

text \<open>
  Router \<open>A\<close>, holding \<open>D\<close> via \<open>B\<close> since time 10, after \<open>B\<close> has advertised \<open>D\<close> at the
  same cost again at times 55 and 100.
\<close>

definition router_A_steady :: AsyncRouter where
  "router_A_steady =
     fst (snd (update_routing_table 100 ''B'' [(''D'', Fin 3)]
       (fst (snd (update_routing_table 55 ''B'' [(''D'', Fin 3)]
                    (router_A_via_B, NetworkStats_init))),
        NetworkStats_init)))"

text \<open>
  A network of two routers joined by one link of cost 2, as \<open>_load_json_topology\<close> builds
  it and \<open>initialize_routing_tables\<close> initialises it, and the same network with the link
  DOWN.
\<close>

definition network_AB :: AsyncNetwork where
  "network_AB =
     \<lparr>routers = [(''A'', add_neighbor ''B'' (Link_init ''A'' ''B'' 2) (AsyncRouter_init ''A'' 15)),
                 (''B'', add_neighbor ''A'' (Link_init ''A'' ''B'' 2) (AsyncRouter_init ''B'' 15))],
      links = [((''A'', ''B''), Link_init ''A'' ''B'' 2), ((''B'', ''A''), Link_init ''A'' ''B'' 2)],
      stats = NetworkStats_init\<rparr>"

definition network_AB_down :: AsyncNetwork where
  "network_AB_down =
     (let net = initialize_routing_tables 0 network_AB
      in net\<lparr>links := map (\<lambda>(k, l). (k, l\<lparr>link_status := DOWN\<rparr>)) (links net),
              routers := [(''A'', mark_link ''B'' DOWN (the (map_of (routers net) ''A''))),
                          (''B'', mark_link ''A'' DOWN (the (map_of (routers net) ''B'')))]\<rparr>)"

section \<open>Lemmas on the loop of update_routing_table\<close>

lemma update_route_id [simp]:
  "router_id (fst (snd (update_route now n nc item s))) = router_id (fst (snd s))"
  by (cases item; cases s)
     (auto simp: update_route_def route_changed_def Let_def split: option.splits)

lemma update_route_neighbors [simp]:
  "neighbors (fst (snd (update_route now n nc item s))) = neighbors (fst (snd s))"
  by (cases item; cases s)
     (auto simp: update_route_def route_changed_def Let_def split: option.splits)

lemma update_route_other_entry:
  "fst item \<noteq> d \<Longrightarrow>
   map_of (routing_table (fst (snd (update_route now n nc item s)))) d =
   map_of (routing_table (fst (snd s))) d"
  by (cases item; cases s)
     (auto simp: update_route_def route_changed_def Let_def update_conv' split: option.splits)

lemma update_route_other_hold:
  "fst item \<noteq> d \<Longrightarrow>
   hold_down_routes (fst (snd (update_route now n nc item s))) d =
   hold_down_routes (fst (snd s)) d"
  by (cases item; cases s)
     (auto simp: update_route_def route_changed_def Let_def split: option.splits)

lemma fold_update_route_id [simp]:
  "router_id (fst (snd (fold (update_route now n nc) vec s))) = router_id (fst (snd s))"
  by (induction vec arbitrary: s) simp_all

lemma fold_update_route_neighbors [simp]:
  "neighbors (fst (snd (fold (update_route now n nc) vec s))) = neighbors (fst (snd s))"
  by (induction vec arbitrary: s) simp_all

lemma fold_update_route_other_entry:
  "d \<notin> fst ` set vec \<Longrightarrow>
   map_of (routing_table (fst (snd (fold (update_route now n nc) vec s)))) d =
   map_of (routing_table (fst (snd s))) d"
  by (induction vec arbitrary: s) (auto simp: update_route_other_entry)

lemma fold_update_route_other_hold:
  "d \<notin> fst ` set vec \<Longrightarrow>
   hold_down_routes (fst (snd (fold (update_route now n nc) vec s))) d =
   hold_down_routes (fst (snd s)) d"
  by (induction vec arbitrary: s) (auto simp: update_route_other_hold)

lemma settled_cong:
  "router_id r = router_id r' \<Longrightarrow>
   map_of (routing_table r) (fst item) = map_of (routing_table r') (fst item) \<Longrightarrow>
   hold_down_routes r (fst item) = hold_down_routes r' (fst item) \<Longrightarrow>
   settled n nc r item = settled n nc r' item"
  by (cases item) (simp add: settled_def)

lemma settled_flag:
  "settled n nc (fst (snd s)) item \<Longrightarrow> fst (update_route now n nc item s) = fst s"
  by (cases item; cases s)
     (auto simp: settled_def update_route_def route_changed_def Let_def RouteEntry_init_def
           split: option.splits if_splits)

lemma update_route_settles:
  "settled n nc (fst (snd (update_route now n nc item s))) item"
  by (cases item; cases s)
     (auto simp: settled_def update_route_def route_changed_def Let_def RouteEntry_init_def
                 update_conv'
           split: option.splits if_splits)

lemma update_route_settled_other:
  "fst item' \<noteq> fst item \<Longrightarrow>
   settled n nc (fst (snd (update_route now n' nc' item' s))) item = settled n nc (fst (snd s)) item"
  by (rule settled_cong) (simp_all add: update_route_other_entry update_route_other_hold)

lemma fold_update_route_settled_other:
  "fst item \<notin> fst ` set vec \<Longrightarrow>
   settled n nc (fst (snd (fold (update_route now n' nc') vec s))) item =
   settled n nc (fst (snd s)) item"
  by (rule settled_cong)
     (simp_all add: fold_update_route_other_entry fold_update_route_other_hold)

lemma fold_update_route_settles:
  "distinct (map fst vec) \<Longrightarrow> item \<in> set vec \<Longrightarrow>
   settled n nc (fst (snd (fold (update_route now n nc) vec s))) item"
proof (induction vec arbitrary: s)
  case Nil
  then show ?case by simp
next
  case (Cons x xs)
  show ?case
  proof (cases "item = x")
    case True
    from Cons.prems(1) have "fst x \<notin> fst ` set xs" by simp
    then show ?thesis
      using True by (simp add: fold_update_route_settled_other update_route_settles)
  next
    case False
    with Cons.prems have "item \<in> set xs" "distinct (map fst xs)" by simp_all
    then show ?thesis using Cons.IH by simp
  qed
qed

lemma fold_settled_flag:
  "distinct (map fst vec) \<Longrightarrow> \<forall>item \<in> set vec. settled n nc (fst (snd s)) item \<Longrightarrow>
   fst (fold (update_route now n nc) vec s) = fst s"
proof (induction vec arbitrary: s)
  case Nil
  then show ?case by simp
next
  case (Cons x xs)
  let ?s = "update_route now n nc x s"
  have flag: "fst ?s = fst s" using Cons.prems(2) by (simp add: settled_flag)
  have "\<forall>item \<in> set xs. settled n nc (fst (snd ?s)) item"
  proof
    fix item assume i: "item \<in> set xs"
    with Cons.prems(1) have "fst x \<noteq> fst item" by auto
    then show "settled n nc (fst (snd ?s)) item"
      using Cons.prems(2) i by (simp add: update_route_settled_other)
  qed
  with Cons.IH [of ?s] Cons.prems(1) flag show ?case by simp
qed

lemma refresh_neighbor_id [simp]: "router_id (refresh_neighbor now n r) = router_id r"
  by (simp add: refresh_neighbor_def split: option.splits)

lemma refresh_neighbor_neighbors [simp]: "neighbors (refresh_neighbor now n r) = neighbors r"
  by (simp add: refresh_neighbor_def split: option.splits)

lemma refresh_neighbor_hold [simp]:
  "hold_down_routes (refresh_neighbor now n r) = hold_down_routes r"
  by (simp add: refresh_neighbor_def split: option.splits)

lemma refresh_neighbor_entry:
  "map_of (routing_table (refresh_neighbor now n r)) d =
   (if d = n then map_option (\<lambda>e. e\<lparr>last_update_time := now, timeout_time := now + ROUTE_TIMEOUT\<rparr>)
                    (map_of (routing_table r) d)
    else map_of (routing_table r) d)"
  by (auto simp: refresh_neighbor_def update_conv' split: option.splits)

lemma refresh_neighbor_settled:
  "settled n nc (refresh_neighbor now n' r) item = settled n nc r item"
  by (cases item)
     (auto simp: settled_def refresh_neighbor_entry Let_def split: option.splits)

lemma update_route_held:
  "hold_down_routes (fst (snd s)) d \<noteq> None \<Longrightarrow>
   map_of (routing_table (fst (snd s))) d = Some e \<Longrightarrow> next_hop e \<noteq> Some n \<Longrightarrow>
   map_of (routing_table (fst (snd (update_route now n nc item s)))) d = Some e \<and>
   hold_down_routes (fst (snd (update_route now n nc item s))) d \<noteq> None"
  by (cases item; cases s)
     (auto simp: update_route_def route_changed_def Let_def update_conv' split: option.splits)

lemma fold_update_route_held:
  "hold_down_routes (fst (snd s)) d \<noteq> None \<Longrightarrow>
   map_of (routing_table (fst (snd s))) d = Some e \<Longrightarrow> next_hop e \<noteq> Some n \<Longrightarrow>
   map_of (routing_table (fst (snd (fold (update_route now n nc) vec s)))) d = Some e"
proof (induction vec arbitrary: s)
  case Nil
  then show ?case by simp
next
  case (Cons x xs)
  from update_route_held [OF Cons.prems, of now nc x] Cons.IH [of "update_route now n nc x s"]
    Cons.prems(3)
  show ?case by simp
qed

lemma list_all_update:
  "list_all P al \<Longrightarrow> P (k, v) \<Longrightarrow> list_all P (AList.update k v al)"
  by (induction al) auto

lemma costs_nonneg_lookup:
  "costs_nonneg table \<Longrightarrow> map_of table d = Some e \<Longrightarrow> cost_nonneg (cost e)"
  by (auto simp: costs_nonneg_def list_all_iff dest!: map_of_SomeD)

lemma costs_nonneg_update:
  "costs_nonneg table \<Longrightarrow> cost_nonneg (cost e) \<Longrightarrow> costs_nonneg (AList.update d e table)"
  by (simp add: costs_nonneg_def list_all_update)

lemma new_cost_nonneg:
  "0 \<le> nc \<Longrightarrow> cost_nonneg a \<Longrightarrow> cost_nonneg (new_cost_of nc a)"
  by (cases a) simp_all

lemma update_route_nonneg:
  assumes "0 \<le> nc" "cost_nonneg (snd item)" "costs_nonneg (routing_table (fst (snd s)))"
  shows "costs_nonneg (routing_table (fst (snd (update_route now n nc item s))))"
proof -
  obtain d a where item: "item = (d, a)" by (cases item)
  obtain u r st where s: "s = (u, r, st)" by (cases s)
  have nn: "cost_nonneg (new_cost_of nc a)"
    using assms item by (simp add: new_cost_nonneg)
  show ?thesis
    using assms(3) nn unfolding item s
    by (auto simp: update_route_def route_changed_def Let_def RouteEntry_init_def
             intro!: costs_nonneg_update dest: costs_nonneg_lookup split: option.splits)
qed

lemma fold_update_route_nonneg:
  "0 \<le> nc \<Longrightarrow> \<forall>item \<in> set vec. cost_nonneg (snd item) \<Longrightarrow>
   costs_nonneg (routing_table (fst (snd s))) \<Longrightarrow>
   costs_nonneg (routing_table (fst (snd (fold (update_route now n nc) vec s))))"
  by (induction vec arbitrary: s) (simp_all add: update_route_nonneg)

lemma refresh_neighbor_nonneg:
  "costs_nonneg (routing_table r) \<Longrightarrow> costs_nonneg (routing_table (refresh_neighbor now n r))"
  by (auto simp: refresh_neighbor_def intro!: costs_nonneg_update dest: costs_nonneg_lookup
           split: option.splits)

section \<open>Lemmas on initialize_routing_table\<close>

lemma init_dest_id [simp]: "router_id (init_dest now d r) = router_id r"
  by (simp add: init_dest_def Let_def)

lemma init_dest_neighbors [simp]: "neighbors (init_dest now d r) = neighbors r"
  by (simp add: init_dest_def Let_def)

lemma init_dest_hold [simp]: "hold_down_routes (init_dest now d r) = hold_down_routes r"
  by (simp add: init_dest_def Let_def)

lemma fold_init_dest_id [simp]: "router_id (fold (init_dest now) ds r) = router_id r"
  by (induction ds arbitrary: r) simp_all

lemma fold_init_dest_neighbors [simp]: "neighbors (fold (init_dest now) ds r) = neighbors r"
  by (induction ds arbitrary: r) simp_all

lemma fold_init_dest_hold [simp]:
  "hold_down_routes (fold (init_dest now) ds r) = hold_down_routes r"
  by (induction ds arbitrary: r) simp_all

lemma init_dest_entry:
  "map_of (routing_table (init_dest now d' r)) d =
   (if d = d' then Some (base_entry now (router_id r) d) else map_of (routing_table r) d)"
  by (simp add: init_dest_def Let_def update_conv' base_entry_def)

lemma fold_init_dest_entry:
  "map_of (routing_table (fold (init_dest now) ds r)) d =
   (if d \<in> set ds then Some (base_entry now (router_id r) d) else map_of (routing_table r) d)"
proof (induction ds arbitrary: r rule: rev_induct)
  case Nil
  then show ?case by simp
next
  case (snoc x xs)
  then show ?case by (simp add: init_dest_entry)
qed

lemma init_neighbor_id [simp]: "router_id (init_neighbor now item r) = router_id r"
  by (cases item) (simp add: init_neighbor_def split: option.splits)

lemma init_neighbor_neighbors [simp]: "neighbors (init_neighbor now item r) = neighbors r"
  by (cases item) (simp add: init_neighbor_def split: option.splits)

lemma init_neighbor_hold [simp]:
  "hold_down_routes (init_neighbor now item r) = hold_down_routes r"
  by (cases item) (simp add: init_neighbor_def split: option.splits)

lemma fold_init_neighbor_id [simp]: "router_id (fold (init_neighbor now) ns r) = router_id r"
  by (induction ns arbitrary: r) simp_all

lemma fold_init_neighbor_neighbors [simp]:
  "neighbors (fold (init_neighbor now) ns r) = neighbors r"
  by (induction ns arbitrary: r) simp_all

lemma fold_init_neighbor_hold [simp]:
  "hold_down_routes (fold (init_neighbor now) ns r) = hold_down_routes r"
  by (induction ns arbitrary: r) simp_all

lemma init_neighbor_entry:
  "map_of (routing_table (init_neighbor now (k, l) r)) d =
   (if d = k \<and> is_operational l
    then map_option (direct_entry now k l) (map_of (routing_table r) d)
    else map_of (routing_table r) d)"
  by (auto simp: init_neighbor_def update_conv' direct_entry_def split: option.splits)

lemma fold_init_neighbor_entry:
  "distinct (map fst ns) \<Longrightarrow>
   map_of (routing_table (fold (init_neighbor now) ns r)) d =
   (case map_of ns d of
      Some l \<Rightarrow> if is_operational l
                then map_option (direct_entry now d l) (map_of (routing_table r) d)
                else map_of (routing_table r) d
    | None \<Rightarrow> map_of (routing_table r) d)"
proof (induction ns arbitrary: r)
  case Nil
  then show ?case by simp
next
  case (Cons x xs)
  obtain k l where x: "x = (k, l)" by (cases x)
  from Cons.prems x have nk: "map_of xs k = None" and dx: "distinct (map fst xs)"
    by (auto simp: map_of_eq_None_iff)
  show ?case
    using Cons.IH [OF dx, of "init_neighbor now (k, l) r"] nk
    by (auto simp: x init_neighbor_entry split: option.splits)
qed

lemma initialize_routing_table_entry:
  "distinct (map fst (neighbors r)) \<Longrightarrow>
   map_of (routing_table (initialize_routing_table now all_routers r)) d =
   (let before = (if d \<in> set all_routers then Some (base_entry now (router_id r) d)
                  else map_of (routing_table r) d)
    in case map_of (neighbors r) d of
         Some l \<Rightarrow> if is_operational l then map_option (direct_entry now d l) before else before
       | None \<Rightarrow> before)"
  by (auto simp: initialize_routing_table_def fold_init_neighbor_entry fold_init_dest_entry Let_def
           split: option.splits)

lemma initialize_routing_table_rest [simp]:
  "router_id (initialize_routing_table now all_routers r) = router_id r"
  "neighbors (initialize_routing_table now all_routers r) = neighbors r"
  "hold_down_routes (initialize_routing_table now all_routers r) = hold_down_routes r"
  by (simp_all add: initialize_routing_table_def)

lemma fold_init_neighbor_other_entry:
  "d \<notin> fst ` set ns \<Longrightarrow>
   map_of (routing_table (fold (init_neighbor now) ns r)) d = map_of (routing_table r) d"
proof (induction ns arbitrary: r)
  case Nil
  then show ?case by simp
next
  case (Cons x xs)
  obtain k l where x: "x = (k, l)" by (cases x)
  with Cons show ?case by (simp add: init_neighbor_entry)
qed

section \<open>Lemmas on the timer sweep, the link handlers and the advertisements\<close>

lemma for_entries_lookup:
  "map_of xs d = Some e \<Longrightarrow> (\<And>s. fst (f (d, e) s) = e) \<Longrightarrow>
   map_of (fst (for_entries f xs s)) d = Some e"
proof (induction xs arbitrary: s)
  case Nil
  then show ?case by simp
next
  case (Cons x xs)
  obtain k v where x: "x = (k, v)" by (cases x)
  show ?case
  proof (cases "k = d")
    case True
    with Cons.prems x have "v = e" by simp
    with Cons.prems(2) [of s] True x show ?thesis
      by (simp add: case_prod_beta)
  next
    case False
    with Cons.prems x have "map_of xs d = Some e" by simp
    from Cons.IH [OF this Cons.prems(2)] False x show ?thesis
      by (simp add: case_prod_beta)
  qed
qed

lemma get_distance_vector_keeps:
  "routing_table (snd (get_distance_vector_for_neighbor now n r)) = routing_table r"
  "router_id (snd (get_distance_vector_for_neighbor now n r)) = router_id r"
  "neighbors (snd (get_distance_vector_for_neighbor now n r)) = neighbors r"
  by (simp_all add: get_distance_vector_for_neighbor_def case_prod_beta)

lemma advertise_keeps:
  "routing_table (snd (advertise now n s)) = routing_table (snd s)"
  "router_id (snd (advertise now n s)) = router_id (snd s)"
  "neighbors (snd (advertise now n s)) = neighbors (snd s)"
  by (simp_all add: advertise_def get_distance_vector_keeps case_prod_beta split: option.splits)

lemma fold_advertise_keeps:
  "routing_table (snd (fold (advertise now) ns s)) = routing_table (snd s)"
  "router_id (snd (fold (advertise now) ns s)) = router_id (snd s)"
  "neighbors (snd (fold (advertise now) ns s)) = neighbors (snd s)"
  by (induction ns arbitrary: s) (simp_all add: advertise_keeps)

lemma send_triggered_update_keeps:
  "routing_table (snd (send_triggered_update now r)) = routing_table r"
  "router_id (snd (send_triggered_update now r)) = router_id r"
  "neighbors (snd (send_triggered_update now r)) = neighbors r"
  by (simp_all add: send_triggered_update_def fold_advertise_keeps case_prod_beta)

lemma check_timeouts_table:
  "routing_table (fst (snd (check_timeouts now (r, st)))) =
   fst (for_entries (timeout_entry now (router_id r)) (routing_table r)
          (distance_vector r, hold_down_routes r, False))"
  by (simp add: check_timeouts_def Let_def send_triggered_update_keeps case_prod_beta)

lemma check_timeouts_keeps:
  "router_id (fst (snd (check_timeouts now (r, st)))) = router_id r"
  "neighbors (fst (snd (check_timeouts now (r, st)))) = neighbors r"
  by (simp_all add: check_timeouts_def Let_def send_triggered_update_keeps case_prod_beta)

lemma timeout_entry_unarmed:
  "status e = VALID \<Longrightarrow> timeout_time e = 0 \<Longrightarrow> fst (timeout_entry now self (d, e) s) = e"
  by (simp add: timeout_entry_def case_prod_beta)

lemma timeout_entry_self: "fst (timeout_entry now self (self, e) s) = e"
  by (simp add: timeout_entry_def case_prod_beta)

lemma fail_entry_self: "fst (fail_entry now self n (self, e) s) = e"
  by (simp add: fail_entry_def case_prod_beta)

lemma dv_entry_other:
  "fst item \<noteq> d \<Longrightarrow>
   map_of (fst (dv_entry now self n item s)) d = map_of (fst s) d \<and>
   (d \<in> fst (snd (dv_entry now self n item s))) = (d \<in> fst (snd s)) \<and>
   snd (snd (dv_entry now self n item s)) d = snd (snd s) d"
  by (cases item; cases s)
     (auto simp: dv_entry_def Let_def update_conv' split: option.splits)

lemma fold_dv_entry_other:
  "d \<notin> fst ` set xs \<Longrightarrow>
   map_of (fst (fold (dv_entry now self n) xs s)) d = map_of (fst s) d \<and>
   (d \<in> fst (snd (fold (dv_entry now self n) xs s))) = (d \<in> fst (snd s)) \<and>
   snd (snd (fold (dv_entry now self n) xs s)) d = snd (snd s) d"
proof (induction xs arbitrary: s)
  case Nil
  then show ?case by simp
next
  case (Cons x xs)
  then have "fst x \<noteq> d" "d \<notin> fst ` set xs" by auto
  with Cons.IH [of "dv_entry now self n x s"] dv_entry_other [of x d now self n s]
  show ?case by simp
qed

lemma dv_entry_poisoned:
  "next_hop e = Some n \<Longrightarrow> d \<noteq> self \<Longrightarrow>
   map_of (fst s) d = None \<Longrightarrow> d \<notin> fst (snd s) \<Longrightarrow>
   (if status e = GARBAGE
    then d \<notin> fst (snd (dv_entry now self n (d, e) s)) \<and>
         map_of (fst (dv_entry now self n (d, e) s)) d = None
    else d \<in> fst (snd (dv_entry now self n (d, e) s)) \<and>
         map_of (fst (dv_entry now self n (d, e) s)) d =
           (case snd (snd s) d of
              Some expiry \<Rightarrow> if now < expiry then None else Some Infty
            | None \<Rightarrow> Some Infty))"
  by (cases s) (auto simp: dv_entry_def Let_def update_conv' split: option.splits)

text \<open>
  What the advertisement for \<open>n\<close> holds for a row whose next hop is \<open>n\<close>: nothing when the
  row is GARBAGE; otherwise membership of the poison set, and a place in the vector, at
  infinite cost, unless an unexpired hold-down leaves the destination out.
\<close>

lemma advertisement_of_row:
  assumes dist: "distinct (map fst (routing_table r))"
    and ent: "map_of (routing_table r) d = Some e"
    and hop: "next_hop e = Some n"
    and nself: "d \<noteq> router_id r"
  shows "if status e = GARBAGE
         then d \<notin> snd (fst (get_distance_vector_for_neighbor now n r)) \<and>
              map_of (fst (fst (get_distance_vector_for_neighbor now n r))) d = None
         else d \<in> snd (fst (get_distance_vector_for_neighbor now n r)) \<and>
              map_of (fst (fst (get_distance_vector_for_neighbor now n r))) d =
                (case hold_down_routes r d of
                   Some expiry \<Rightarrow> if now < expiry then None else Some Infty
                 | None \<Rightarrow> Some Infty)"
proof -
  let ?f = "dv_entry now (router_id r) n"
  let ?s0 = "([], {}, hold_down_routes r) :: (string \<times> Cost) list \<times> string set \<times> (string \<rightharpoonup> real)"
  from ent have "(d, e) \<in> set (routing_table r)" by (rule map_of_SomeD)
  then obtain xs ys where rt: "routing_table r = xs @ (d, e) # ys"
    by (auto dest: split_list)
  with dist have dx: "d \<notin> fst ` set xs" and dy: "d \<notin> fst ` set ys" by auto
  let ?s1 = "fold ?f xs ?s0"
  let ?s2 = "?f (d, e) ?s1"
  let ?s3 = "fold ?f ys ?s2"
  from fold_dv_entry_other [OF dx, of now "router_id r" n ?s0]
  have s1: "map_of (fst ?s1) d = None" "d \<notin> fst (snd ?s1)"
    "snd (snd ?s1) d = hold_down_routes r d"
    by simp_all
  note step = dv_entry_poisoned [OF hop nself s1(1) s1(2), of now]
  note rest = fold_dv_entry_other [OF dy, of now "router_id r" n ?s2]
  have res: "fst (get_distance_vector_for_neighbor now n r) = (fst ?s3, fst (snd ?s3))"
    by (simp add: get_distance_vector_for_neighbor_def rt case_prod_beta)
  show ?thesis
    unfolding res using step rest s1(3) by (simp split: if_splits)
qed

section \<open>The self route\<close>

lemma self_route_ok_cong:
  "router_id r' = router_id r \<Longrightarrow>
   map_of (routing_table r') (router_id r) = map_of (routing_table r) (router_id r) \<Longrightarrow>
   self_route_ok r' = self_route_ok r"
  by (simp add: self_route_ok_def split: option.splits)

lemma self_inv_cong:
  "router_id r' = router_id r \<Longrightarrow> neighbors r' = neighbors r \<Longrightarrow>
   map_of (routing_table r') (router_id r) = map_of (routing_table r) (router_id r) \<Longrightarrow>
   self_inv r' = self_inv r"
  using self_route_ok_cong [of r' r] by (simp add: self_inv_def)

lemma initialize_self_inv:
  assumes "router_id r \<in> set all_routers" "map_of (neighbors r) (router_id r) = None"
  shows "self_inv (initialize_routing_table now all_routers r)"
proof -
  from assms(2) have "router_id r \<notin> fst ` set (neighbors r)"
    by (simp add: map_of_eq_None_iff)
  then have "map_of (routing_table (initialize_routing_table now all_routers r)) (router_id r) =
             Some (base_entry now (router_id r) (router_id r))"
    using assms(1)
    by (simp add: initialize_routing_table_def fold_init_neighbor_other_entry fold_init_dest_entry)
  then show ?thesis
    using assms(2)
    by (simp add: self_inv_def self_route_ok_def base_entry_def RouteEntry_init_def)
qed

lemma update_route_self_entry:
  "map_of (routing_table (fst (snd (update_route now n nc item s)))) (router_id (fst (snd s))) =
   map_of (routing_table (fst (snd s))) (router_id (fst (snd s)))"
proof (cases "fst item = router_id (fst (snd s))")
  case True
  then show ?thesis by (cases item; cases s) (simp add: update_route_def)
next
  case False
  then show ?thesis by (rule update_route_other_entry)
qed

lemma fold_update_route_self_entry:
  "map_of (routing_table (fst (snd (fold (update_route now n nc) vec s)))) (router_id (fst (snd s))) =
   map_of (routing_table (fst (snd s))) (router_id (fst (snd s)))"
proof (induction vec arbitrary: s)
  case Nil
  then show ?case by simp
next
  case (Cons x xs)
  from Cons [of "update_route now n nc x s"] show ?case
    by (simp add: update_route_self_entry)
qed

lemma update_routing_table_self_inv:
  assumes "self_inv r"
  shows "self_inv (fst (snd (update_routing_table now n vec (r, st))))"
proof (cases "map_of (neighbors r) n")
  case None
  then show ?thesis using assms by (simp add: update_routing_table_def)
next
  case (Some link)
  let ?r0 = "refresh_neighbor now n r"
  let ?r1 = "fst (snd (fold (update_route now n (link_cost link)) vec (False, ?r0, st)))"
  have r1: "fst (snd (update_routing_table now n vec (r, st))) = ?r1"
    using Some by (simp add: update_routing_table_def)
  from Some assms have "n \<noteq> router_id r" by (auto simp: self_inv_def)
  then have "map_of (routing_table ?r0) (router_id r) = map_of (routing_table r) (router_id r)"
    by (simp add: refresh_neighbor_entry)
  moreover have "map_of (routing_table ?r1) (router_id r) = map_of (routing_table ?r0) (router_id r)"
    using fold_update_route_self_entry [of now n "link_cost link" vec "(False, ?r0, st)"]
    by simp
  ultimately have "self_inv ?r1 = self_inv r"
    by (intro self_inv_cong) simp_all
  then show ?thesis using assms r1 by simp
qed

lemma process_message_self_inv:
  "self_inv r \<Longrightarrow> self_inv (fst (snd (process_message now m (r, st))))"
  by (simp add: process_message_def update_routing_table_self_inv split: option.splits)

lemma check_timeouts_self_inv:
  assumes "self_inv r"
  shows "self_inv (fst (snd (check_timeouts now (r, st))))"
proof -
  from assms obtain e where e: "map_of (routing_table r) (router_id r) = Some e"
    by (auto simp: self_inv_def self_route_ok_def split: option.splits)
  have "map_of (routing_table (fst (snd (check_timeouts now (r, st))))) (router_id r) = Some e"
    unfolding check_timeouts_table
    by (rule for_entries_lookup [OF e]) (simp add: timeout_entry_self)
  then have "self_inv (fst (snd (check_timeouts now (r, st)))) = self_inv r"
    using e by (intro self_inv_cong) (simp_all add: check_timeouts_keeps)
  then show ?thesis using assms by simp
qed

lemma handle_link_failure_table:
  "routing_table (fst (snd (handle_link_failure now n (r, st)))) =
   (case map_of (neighbors r) n of
      None \<Rightarrow> routing_table r
    | Some link \<Rightarrow>
        fst (for_entries (fail_entry now (router_id r) n) (routing_table r)
               (distance_vector r, hold_down_routes r, False)))"
  by (simp add: handle_link_failure_def Let_def send_triggered_update_keeps case_prod_beta
           split: option.splits)

lemma handle_link_failure_keeps:
  "router_id (fst (snd (handle_link_failure now n (r, st)))) = router_id r"
  "neighbors (fst (snd (handle_link_failure now n (r, st)))) = neighbors r"
  by (simp_all add: handle_link_failure_def Let_def send_triggered_update_keeps case_prod_beta
           split: option.splits)

lemma handle_link_failure_self_inv:
  assumes "self_inv r"
  shows "self_inv (fst (snd (handle_link_failure now n (r, st))))"
proof -
  from assms obtain e where e: "map_of (routing_table r) (router_id r) = Some e"
    by (auto simp: self_inv_def self_route_ok_def split: option.splits)
  have "map_of (fst (for_entries (fail_entry now (router_id r) n) (routing_table r)
               (distance_vector r, hold_down_routes r, False))) (router_id r) = Some e"
    by (rule for_entries_lookup [OF e]) (simp add: fail_entry_self)
  then have "map_of (routing_table (fst (snd (handle_link_failure now n (r, st))))) (router_id r) =
             Some e"
    using e by (simp add: handle_link_failure_table split: option.splits)
  then have "self_inv (fst (snd (handle_link_failure now n (r, st)))) = self_inv r"
    using e by (intro self_inv_cong) (simp_all add: handle_link_failure_keeps)
  then show ?thesis using assms by simp
qed

lemma handle_link_recovery_keeps:
  "router_id (fst (snd (handle_link_recovery now n c (r, st)))) = router_id r"
  "neighbors (fst (snd (handle_link_recovery now n c (r, st)))) = neighbors r"
  by (simp_all add: handle_link_recovery_def Let_def send_triggered_update_keeps case_prod_beta
           split: option.splits)

lemma handle_link_recovery_other_entry:
  "d \<noteq> n \<Longrightarrow>
   map_of (routing_table (fst (snd (handle_link_recovery now n c (r, st))))) d =
   map_of (routing_table r) d"
  by (simp add: handle_link_recovery_def Let_def send_triggered_update_keeps case_prod_beta
                update_conv' split: option.splits)

lemma handle_link_recovery_self_inv:
  assumes "self_inv r"
  shows "self_inv (fst (snd (handle_link_recovery now n c (r, st))))"
proof (cases "map_of (neighbors r) n")
  case None
  then show ?thesis using assms by (simp add: handle_link_recovery_def)
next
  case (Some link)
  with assms have "router_id r \<noteq> n" by (auto simp: self_inv_def)
  then have "self_inv (fst (snd (handle_link_recovery now n c (r, st)))) = self_inv r"
    by (intro self_inv_cong)
       (simp_all add: handle_link_recovery_keeps handle_link_recovery_other_entry)
  then show ?thesis using assms by simp
qed

lemma link_change_self_inv:
  assumes "self_inv r" "map fst ns = map fst (neighbors r)"
  shows "self_inv (r\<lparr>neighbors := ns\<rparr>)"
proof -
  have "fst ` set ns = fst ` set (neighbors r)"
    using arg_cong [OF assms(2), of set] by simp
  moreover have "router_id r \<notin> fst ` set (neighbors r)"
    using assms(1) by (simp add: self_inv_def map_of_eq_None_iff)
  ultimately have "map_of ns (router_id r) = None"
    by (simp add: map_of_eq_None_iff)
  then show ?thesis
    using assms(1) by (simp add: self_inv_def self_route_ok_def split: option.splits)
qed

lemma reachable_self_inv: "reachable r \<Longrightarrow> self_inv r"
proof (induction rule: reachable.induct)
  case (initialized r all_routers now)
  then show ?case by (rule initialize_self_inv)
next
  case (message r now m st)
  then show ?case by (simp add: process_message_self_inv)
next
  case (swept r now st)
  then show ?case by (simp add: check_timeouts_self_inv)
next
  case (link_failed r now n st)
  then show ?case by (simp add: handle_link_failure_self_inv)
next
  case (link_recovered r now n c st)
  then show ?case by (simp add: handle_link_recovery_self_inv)
next
  case (advertised r now n)
  then have "self_inv (snd (get_distance_vector_for_neighbor now n r)) = self_inv r"
    by (intro self_inv_cong) (simp_all add: get_distance_vector_keeps)
  with advertised show ?case by simp
next
  case (link_changed r ns)
  then show ?case by (simp add: link_change_self_inv)
qed

section \<open>The example states, evaluated\<close>

lemmas init_defs = initialize_routing_table_def init_dest_def init_neighbor_def Let_def
  RouteEntry_init_def is_operational_def
lemmas update_defs = update_routing_table_def update_route_def route_changed_def
  refresh_neighbor_def RouteEntry_init_def ROUTE_TIMEOUT_def GARBAGE_COLLECTION_def HOLD_DOWN_def
  Let_def
lemmas adv_defs = send_triggered_update_def advertise_def get_distance_vector_for_neighbor_def
  dv_entry_def MIN_TRIGGERED_INTERVAL_def is_operational_def Let_def

lemma router_A_eq:
  "router_A = \<lparr>router_id = ''A'',
     neighbors = [(''B'', Link_init ''A'' ''B'' 2), (''C'', Link_init ''A'' ''C'' 5)],
     routing_table = [], distance_vector = Map.empty, hold_down_routes = Map.empty,
     last_periodic_update = 0, last_triggered_update = 0, periodic_interval = 15\<rparr>"
  by (simp add: router_A_def add_neighbor_def AsyncRouter_init_def)

lemma router_A_ready_table:
  "routing_table router_A_ready =
     [(''A'', \<lparr>destination = ''A'', cost = Fin 0, next_hop = Some ''A'', status = VALID,
               last_update_time = 0, timeout_time = 0, garbage_time = 0\<rparr>),
      (''B'', \<lparr>destination = ''B'', cost = Fin 2, next_hop = Some ''B'', status = VALID,
               last_update_time = 0, timeout_time = 0, garbage_time = 0\<rparr>),
      (''C'', \<lparr>destination = ''C'', cost = Fin 5, next_hop = Some ''C'', status = VALID,
               last_update_time = 0, timeout_time = 0, garbage_time = 0\<rparr>),
      (''D'', \<lparr>destination = ''D'', cost = Infty, next_hop = None, status = INVALID,
               last_update_time = 0, timeout_time = 0, garbage_time = 0\<rparr>)]"
  by (simp add: router_A_ready_def router_A_eq all_ids_def Link_init_def init_defs)

lemma router_A_ready_rest:
  "router_id router_A_ready = ''A''"
  "neighbors router_A_ready = [(''B'', Link_init ''A'' ''B'' 2), (''C'', Link_init ''A'' ''C'' 5)]"
  "hold_down_routes router_A_ready = Map.empty"
  "last_triggered_update router_A_ready = 0"
  by (simp_all add: router_A_ready_def router_A_eq all_ids_def Link_init_def init_defs)

lemma router_A_via_B_table:
  "routing_table router_A_via_B =
     [(''A'', \<lparr>destination = ''A'', cost = Fin 0, next_hop = Some ''A'', status = VALID,
               last_update_time = 0, timeout_time = 0, garbage_time = 0\<rparr>),
      (''B'', \<lparr>destination = ''B'', cost = Fin 2, next_hop = Some ''B'', status = VALID,
               last_update_time = 10, timeout_time = 100, garbage_time = 0\<rparr>),
      (''C'', \<lparr>destination = ''C'', cost = Fin 5, next_hop = Some ''C'', status = VALID,
               last_update_time = 0, timeout_time = 0, garbage_time = 0\<rparr>),
      (''D'', \<lparr>destination = ''D'', cost = Fin 5, next_hop = Some ''B'', status = VALID,
               last_update_time = 10, timeout_time = 100, garbage_time = 0\<rparr>)]"
  by (simp add: router_A_via_B_def router_A_ready_table router_A_ready_rest Link_init_def
                update_defs)

lemma router_A_via_B_rest:
  "router_id router_A_via_B = ''A''"
  "neighbors router_A_via_B = [(''B'', Link_init ''A'' ''B'' 2), (''C'', Link_init ''A'' ''C'' 5)]"
  "hold_down_routes router_A_via_B = Map.empty"
  "last_triggered_update router_A_via_B = 0"
  by (simp_all add: router_A_via_B_def router_A_ready_table router_A_ready_rest Link_init_def
                update_defs)

lemma router_A_held_table:
  "routing_table router_A_held =
     [(''A'', \<lparr>destination = ''A'', cost = Fin 0, next_hop = Some ''A'', status = VALID,
               last_update_time = 0, timeout_time = 0, garbage_time = 0\<rparr>),
      (''B'', \<lparr>destination = ''B'', cost = Infty, next_hop = Some ''B'', status = INVALID,
               last_update_time = 10, timeout_time = 100, garbage_time = 90\<rparr>),
      (''C'', \<lparr>destination = ''C'', cost = Fin 5, next_hop = Some ''C'', status = VALID,
               last_update_time = 0, timeout_time = 0, garbage_time = 0\<rparr>),
      (''D'', \<lparr>destination = ''D'', cost = Infty, next_hop = Some ''B'', status = INVALID,
               last_update_time = 10, timeout_time = 100, garbage_time = 90\<rparr>)]"
  by (simp add: router_A_held_def mark_link_def router_A_via_B_table router_A_via_B_rest
        Link_init_def handle_link_failure_def fail_entry_def adv_defs
        GARBAGE_COLLECTION_def HOLD_DOWN_def)

lemma router_A_held_rest:
  "router_id router_A_held = ''A''"
  "hold_down_routes router_A_held ''D'' = Some 120"
  "hold_down_routes router_A_held ''B'' = Some 120"
  "map_of (neighbors router_A_held) ''C'' = Some (Link_init ''A'' ''C'' 5)"
  by (simp_all add: router_A_held_def mark_link_def router_A_via_B_table router_A_via_B_rest
        Link_init_def handle_link_failure_def fail_entry_def adv_defs
        GARBAGE_COLLECTION_def HOLD_DOWN_def)

lemma router_A_steady_table:
  "routing_table router_A_steady =
     [(''A'', \<lparr>destination = ''A'', cost = Fin 0, next_hop = Some ''A'', status = VALID,
               last_update_time = 0, timeout_time = 0, garbage_time = 0\<rparr>),
      (''B'', \<lparr>destination = ''B'', cost = Fin 2, next_hop = Some ''B'', status = VALID,
               last_update_time = 100, timeout_time = 190, garbage_time = 0\<rparr>),
      (''C'', \<lparr>destination = ''C'', cost = Fin 5, next_hop = Some ''C'', status = VALID,
               last_update_time = 0, timeout_time = 0, garbage_time = 0\<rparr>),
      (''D'', \<lparr>destination = ''D'', cost = Fin 5, next_hop = Some ''B'', status = VALID,
               last_update_time = 10, timeout_time = 100, garbage_time = 0\<rparr>)]"
  by (simp add: router_A_steady_def router_A_via_B_table router_A_via_B_rest Link_init_def
                update_defs)

lemma router_A_steady_rest:
  "router_id router_A_steady = ''A''"
  "neighbors router_A_steady = [(''B'', Link_init ''A'' ''B'' 2), (''C'', Link_init ''A'' ''C'' 5)]"
  by (simp_all add: router_A_steady_def router_A_via_B_table router_A_via_B_rest Link_init_def
                update_defs)

lemma network_AB_down_eq:
  "routers network_AB_down =
     [(''A'', mark_link ''B'' DOWN
                (initialize_routing_table 0 [''A'', ''B'']
                   (add_neighbor ''B'' (Link_init ''A'' ''B'' 2) (AsyncRouter_init ''A'' 15)))),
      (''B'', mark_link ''A'' DOWN
                (initialize_routing_table 0 [''A'', ''B'']
                   (add_neighbor ''A'' (Link_init ''A'' ''B'' 2) (AsyncRouter_init ''B'' 15))))]"
  "links network_AB_down =
     [((''A'', ''B''), (Link_init ''A'' ''B'' 2)\<lparr>link_status := DOWN\<rparr>),
      ((''B'', ''A''), (Link_init ''A'' ''B'' 2)\<lparr>link_status := DOWN\<rparr>)]"
  by (simp_all add: network_AB_down_def network_AB_def initialize_routing_tables_def Let_def)

section \<open>Properties\<close>

text \<open>
  C7. Applying the same advertisement twice in succession (same neighbour, same vector, on
  the state the first call produced, at any two clock readings) reports no route change the
  second time. A received vector is a dictionary, so its keys are distinct.
\<close>

theorem update_twice_no_change:
  "distinct (map fst vec) \<Longrightarrow>
   \<not> fst (update_routing_table now2 n vec (snd (update_routing_table now1 n vec (r, st))))"
proof (cases "map_of (neighbors r) n")
  case None
  then show ?thesis by (simp add: update_routing_table_def)
next
  case (Some link)
  assume d: "distinct (map fst vec)"
  let ?nc = "link_cost link"
  let ?s1 = "fold (update_route now1 n ?nc) vec (False, refresh_neighbor now1 n r, st)"
  let ?r1 = "fst (snd ?s1)"
  have first: "update_routing_table now1 n vec (r, st) = ?s1"
    using Some by (simp add: update_routing_table_def)
  have nb: "map_of (neighbors ?r1) n = Some link" using Some by simp
  have "\<forall>item \<in> set vec. settled n ?nc (refresh_neighbor now2 n ?r1) item"
    using d by (simp add: refresh_neighbor_settled fold_update_route_settles)
  then have "fst (fold (update_route now2 n ?nc) vec
                    (False, refresh_neighbor now2 n ?r1, snd (snd ?s1))) = False"
    using fold_settled_flag [OF d, of n ?nc "(False, refresh_neighbor now2 n ?r1, snd (snd ?s1))" now2]
    by simp
  then show ?thesis
    using nb unfolding first
    by (cases ?s1) (simp add: update_routing_table_def)
qed

theorem update_twice_no_change_witness:
  "distinct (map fst [(''C'', Fin 3), (''D'', Fin 6)]) \<and>
   \<not> fst (update_routing_table 20 ''B'' [(''C'', Fin 3), (''D'', Fin 6)]
            (snd (update_routing_table 10 ''B'' [(''C'', Fin 3), (''D'', Fin 6)]
                    (initialize_routing_table 0 all_ids router_A, NetworkStats_init))))"
proof -
  have h: "distinct (map fst [(''C'', Fin 3), (''D'', Fin 6)])" by simp
  show ?thesis
    using h update_twice_no_change [OF h] by blast
qed

text \<open>
  C9. A message whose source is not a neighbour, or whose link to the source is not
  operational, is dropped: \<open>process_message\<close> returns False and the router (routing table,
  distance vector, hold-down map and all) and the statistics are unchanged.
\<close>

theorem process_message_drops:
  "map_of (neighbors r) (source m) = None \<or>
   (\<exists>l. map_of (neighbors r) (source m) = Some l \<and> \<not> is_operational l) \<Longrightarrow>
   process_message now m (r, st) = (False, r, st)"
  by (auto simp: process_message_def)

theorem process_message_drops_witness:
  "(map_of (neighbors router_A) ''D'' = None \<or>
    (\<exists>l. map_of (neighbors router_A) ''D'' = Some l \<and> \<not> is_operational l)) \<and>
   process_message 5
     \<lparr>source = ''D'', msg_destination = ''A'', msg_distance_vector = [(''B'', Fin 3)],
      timestamp = 4, message_id = ''D-A-4000'', message_type = REGULAR,
      poison_reverse_routes = {}\<rparr>
     (router_A, NetworkStats_init) = (False, router_A, NetworkStats_init)"
proof -
  have h: "map_of (neighbors router_A) ''D'' = None \<or>
           (\<exists>l. map_of (neighbors router_A) ''D'' = Some l \<and> \<not> is_operational l)"
    by (simp add: router_A_def add_neighbor_def AsyncRouter_init_def)
  show ?thesis
    using h process_message_drops [of router_A _ 5 NetworkStats_init] by simp
qed

text \<open>
  C6. While a destination is in the hold-down map, \<open>update_routing_table\<close> does not adopt
  a route to it from a neighbour other than the entry's next hop, whatever cost that
  neighbour offers: the entry keeps its cost, next hop and status.
\<close>

theorem hold_down_blocks_other_neighbors:
  assumes "hold_down_routes r d \<noteq> None"
    and "map_of (routing_table r) d = Some e"
    and "next_hop e \<noteq> Some n"
  shows "\<exists>e'. map_of (routing_table (fst (snd (update_routing_table now n vec (r, st))))) d = Some e' \<and>
              cost e' = cost e \<and> next_hop e' = next_hop e \<and> status e' = status e"
proof (cases "map_of (neighbors r) n")
  case None
  then show ?thesis using assms by (simp add: update_routing_table_def)
next
  case (Some link)
  let ?r0 = "refresh_neighbor now n r"
  obtain e0 where e0: "map_of (routing_table ?r0) d = Some e0"
    and same: "cost e0 = cost e" "next_hop e0 = next_hop e" "status e0 = status e"
    using assms(2) by (cases "d = n") (simp_all add: refresh_neighbor_entry)
  have "map_of (routing_table (fst (snd (fold (update_route now n (link_cost link)) vec
           (False, ?r0, st))))) d = Some e0"
    by (rule fold_update_route_held) (use assms e0 same in simp_all)
  then show ?thesis using Some same by (simp add: update_routing_table_def)
qed

theorem hold_down_blocks_other_neighbors_witness:
  "hold_down_routes router_A_held ''D'' \<noteq> None \<and>
   map_of (routing_table router_A_held) ''D'' =
     Some \<lparr>destination = ''D'', cost = Infty, next_hop = Some ''B'', status = INVALID,
           last_update_time = 10, timeout_time = 100, garbage_time = 90\<rparr> \<and>
   (\<exists>e'. map_of (routing_table (fst (snd (update_routing_table 40 ''C'' [(''D'', Fin 1)]
                  (router_A_held, NetworkStats_init))))) ''D'' = Some e' \<and>
         cost e' = Infty \<and> next_hop e' = Some ''B'' \<and> status e' = INVALID)"
proof -
  have h1: "hold_down_routes router_A_held ''D'' \<noteq> None"
    by (simp add: router_A_held_rest)
  have h2: "map_of (routing_table router_A_held) ''D'' =
     Some \<lparr>destination = ''D'', cost = Infty, next_hop = Some ''B'', status = INVALID,
           last_update_time = 10, timeout_time = 100, garbage_time = 90\<rparr>"
    by (simp add: router_A_held_table)
  have h3: "next_hop \<lparr>destination = ''D'', cost = Infty, next_hop = Some ''B'', status = INVALID,
           last_update_time = 10, timeout_time = 100, garbage_time = 90\<rparr> \<noteq> Some ''C''"
    by simp
  show ?thesis
    using h1 h2 hold_down_blocks_other_neighbors [OF h1 h2 h3, of 40 "[(''D'', Fin 1)]" NetworkStats_init]
    by simp
qed

text \<open>
  C1. A row whose next hop is the sending neighbour is refreshed only when the advertised
  cost changes it: \<open>last_update_time\<close> and \<open>timeout_time\<close> are assigned under
  \<open>if new_cost != old_cost\<close>, while the sender's own row is refreshed before the loop
  whatever the vector says. Router \<open>A\<close> reaches \<open>D\<close> via \<open>B\<close> since time 10; \<open>B\<close> advertises
  \<open>D\<close> at the same cost again at times 55 and 100. The row of \<open>D\<close> keeps timeout_time 100
  (the row of \<open>B\<close> has 190), and the timer sweep at time 101 declares the route to \<open>D\<close>
  INVALID one second after its next hop last advertised it.
\<close>

theorem steady_route_expires:
  "map_of (routing_table router_A_via_B) ''D'' =
     Some \<lparr>destination = ''D'', cost = Fin 5, next_hop = Some ''B'', status = VALID,
           last_update_time = 10, timeout_time = 100, garbage_time = 0\<rparr> \<and>
   map_of (routing_table router_A_steady) ''D'' =
     Some \<lparr>destination = ''D'', cost = Fin 5, next_hop = Some ''B'', status = VALID,
           last_update_time = 10, timeout_time = 100, garbage_time = 0\<rparr> \<and>
   map_of (routing_table router_A_steady) ''B'' =
     Some \<lparr>destination = ''B'', cost = Fin 2, next_hop = Some ''B'', status = VALID,
           last_update_time = 100, timeout_time = 190, garbage_time = 0\<rparr> \<and>
   map_of (routing_table (fst (snd (check_timeouts 101 (router_A_steady, NetworkStats_init))))) ''D'' =
     Some \<lparr>destination = ''D'', cost = Infty, next_hop = Some ''B'', status = INVALID,
           last_update_time = 10, timeout_time = 100, garbage_time = 161\<rparr>"
  by (simp add: router_A_via_B_table router_A_steady_table router_A_steady_rest
        check_timeouts_table timeout_entry_def GARBAGE_COLLECTION_def HOLD_DOWN_def)

text \<open>
  C3, as the code has it. Nothing caps a cost at 16: the new cost is infinite exactly when
  the advertised cost is, and otherwise the plain integer sum of link cost and advertised
  cost. What does hold of the stored costs is the lower bound: with non-negative link costs
  and a vector of non-negative or infinite costs, every finite cost of the table stays
  non-negative.
\<close>

theorem cost_arithmetic:
  assumes "list_all (\<lambda>(k, l). 0 \<le> link_cost l) (neighbors r)"
    and "list_all (\<lambda>(d, a). cost_nonneg a) vec"
    and "costs_nonneg (routing_table r)"
  shows "new_cost_of nc Infty = Infty \<and> new_cost_of nc (Fin c) = Fin (nc + c) \<and>
         costs_nonneg (routing_table (fst (snd (update_routing_table now n vec (r, st)))))"
proof -
  have "costs_nonneg (routing_table (fst (snd (update_routing_table now n vec (r, st)))))"
  proof (cases "map_of (neighbors r) n")
    case None
    then show ?thesis using assms(3) by (simp add: update_routing_table_def)
  next
    case (Some link)
    then have "0 \<le> link_cost link"
      using assms(1) by (auto simp: list_all_iff dest!: map_of_SomeD)
    moreover have "\<forall>item \<in> set vec. cost_nonneg (snd item)"
      using assms(2) by (auto simp: list_all_iff)
    ultimately show ?thesis
      using Some assms(3)
      by (simp add: update_routing_table_def fold_update_route_nonneg refresh_neighbor_nonneg)
  qed
  then show ?thesis by simp
qed

theorem cost_arithmetic_witness:
  "list_all (\<lambda>(k, l). 0 \<le> link_cost l) (neighbors router_A_ready) \<and>
   list_all (\<lambda>(d, a). cost_nonneg a) [(''D'', Fin 14)] \<and>
   costs_nonneg (routing_table router_A_ready) \<and>
   new_cost_of 5 Infty = Infty \<and> new_cost_of 5 (Fin 14) = Fin (5 + 14) \<and>
   costs_nonneg (routing_table (fst (snd (update_routing_table 10 ''C'' [(''D'', Fin 14)]
                   (router_A_ready, NetworkStats_init)))))"
proof -
  have h1: "list_all (\<lambda>(k, l). 0 \<le> link_cost l) (neighbors router_A_ready)"
    by (simp add: router_A_ready_rest Link_init_def)
  have h2: "list_all (\<lambda>(d, a). cost_nonneg a) [(''D'', Fin 14)]" by simp
  have h3: "costs_nonneg (routing_table router_A_ready)"
    by (simp add: router_A_ready_table costs_nonneg_def)
  show ?thesis
    using h1 h2 h3 cost_arithmetic [OF h1 h2 h3, of 5 14 10 "''C''" NetworkStats_init]
    by blast
qed

theorem cost_saturation_counterexample:
  "new_cost_of 5 (Fin 14) = Fin 19 \<and>
   map_option cost
     (map_of (routing_table (fst (snd (update_routing_table 10 ''C'' [(''D'', Fin 14)]
                (router_A_ready, NetworkStats_init))))) ''D'') = Some (Fin 19) \<and>
   Fin 19 \<noteq> Infty \<and> \<not> (19 :: int) \<le> 15"
  by (simp add: router_A_ready_table router_A_ready_rest Link_init_def update_defs)

text \<open>
  C2. In the advertisement built for neighbour \<open>n\<close>, every destination other than the
  router itself that the advertisement covers (its entry is not GARBAGE, and it is not under
  a hold-down that has yet to expire) and whose entry has next hop \<open>n\<close> is in the vector
  at infinite cost and is a member of the poison set. The routing table is a dictionary,
  so its keys are distinct.
\<close>

theorem poison_reverse_in_advertisement:
  assumes "distinct (map fst (routing_table r))"
    and "map_of (routing_table r) d = Some e"
    and "next_hop e = Some n"
    and "d \<noteq> router_id r"
    and "status e \<noteq> GARBAGE"
    and "case hold_down_routes r d of None \<Rightarrow> True | Some expiry \<Rightarrow> \<not> now < expiry"
  shows "map_of (fst (fst (get_distance_vector_for_neighbor now n r))) d = Some Infty \<and>
         d \<in> snd (fst (get_distance_vector_for_neighbor now n r))"
  using advertisement_of_row [OF assms(1-4), of now] assms(5,6)
  by (simp split: option.splits)

theorem poison_reverse_in_advertisement_witness:
  "distinct (map fst (routing_table router_A_via_B)) \<and>
   map_of (routing_table router_A_via_B) ''D'' =
     Some \<lparr>destination = ''D'', cost = Fin 5, next_hop = Some ''B'', status = VALID,
           last_update_time = 10, timeout_time = 100, garbage_time = 0\<rparr> \<and>
   ''D'' \<noteq> router_id router_A_via_B \<and>
   hold_down_routes router_A_via_B ''D'' = None \<and>
   map_of (fst (fst (get_distance_vector_for_neighbor 20 ''B'' router_A_via_B))) ''D'' = Some Infty \<and>
   ''D'' \<in> snd (fst (get_distance_vector_for_neighbor 20 ''B'' router_A_via_B))"
proof -
  let ?e = "\<lparr>destination = ''D'', cost = Fin 5, next_hop = Some ''B'', status = VALID,
           last_update_time = 10, timeout_time = 100, garbage_time = 0\<rparr>"
  have h1: "distinct (map fst (routing_table router_A_via_B))"
    by (simp add: router_A_via_B_table)
  have h2: "map_of (routing_table router_A_via_B) ''D'' = Some ?e"
    by (simp add: router_A_via_B_table)
  have h3: "next_hop ?e = Some ''B''" by simp
  have h4: "''D'' \<noteq> router_id router_A_via_B" by (simp add: router_A_via_B_rest)
  have h5: "status ?e \<noteq> GARBAGE" by simp
  have hold: "hold_down_routes router_A_via_B ''D'' = None" by (simp add: router_A_via_B_rest)
  then have h6: "case hold_down_routes router_A_via_B ''D'' of None \<Rightarrow> True
                 | Some expiry \<Rightarrow> \<not> 20 < expiry"
    by simp
  show ?thesis
    using h1 h2 h4 hold poison_reverse_in_advertisement [OF h1 h2 h3 h4 h5 h6] by blast
qed

text \<open>
  C4, as the code has it. For an operational neighbour \<open>n\<close> with link cost \<open>c\<close> that is among
  \<open>all_routers\<close>, \<open>initialize_routing_table\<close> leaves the row of \<open>n\<close> with cost \<open>c\<close>, next hop
  \<open>n\<close>, status VALID and last_update_time \<open>now\<close>; its timeout_time stays 0, the value the
  constructor gave it.
\<close>

theorem initialize_neighbor_route:
  assumes "distinct (map fst (neighbors r))"
    and "map_of (neighbors r) n = Some l"
    and "is_operational l"
    and "n \<in> set all_routers"
  shows "map_of (routing_table (initialize_routing_table now all_routers r)) n =
           Some \<lparr>destination = n, cost = Fin (link_cost l), next_hop = Some n, status = VALID,
                 last_update_time = now, timeout_time = 0, garbage_time = 0\<rparr>"
  using assms
  by (simp add: initialize_routing_table_entry base_entry_def direct_entry_def RouteEntry_init_def)

theorem initialize_neighbor_route_witness:
  "distinct (map fst (neighbors router_A)) \<and>
   map_of (neighbors router_A) ''B'' = Some (Link_init ''A'' ''B'' 2) \<and>
   is_operational (Link_init ''A'' ''B'' 2) \<and> ''B'' \<in> set all_ids \<and>
   map_of (routing_table (initialize_routing_table 7 all_ids router_A)) ''B'' =
     Some \<lparr>destination = ''B'', cost = Fin 2, next_hop = Some ''B'', status = VALID,
           last_update_time = 7, timeout_time = 0, garbage_time = 0\<rparr>"
proof -
  have h1: "distinct (map fst (neighbors router_A))" by (simp add: router_A_eq)
  have h2: "map_of (neighbors router_A) ''B'' = Some (Link_init ''A'' ''B'' 2)"
    by (simp add: router_A_eq)
  have h3: "is_operational (Link_init ''A'' ''B'' 2)"
    by (simp add: is_operational_def Link_init_def)
  have h4: "''B'' \<in> set all_ids" by (simp add: all_ids_def)
  show ?thesis
    using h1 h2 h3 h4 initialize_neighbor_route [OF h1 h2 h3 h4, of 7]
    by (simp add: Link_init_def)
qed

theorem initialize_timeout_counterexample:
  "map_option is_operational (map_of (neighbors router_A) ''B'') = Some True \<and>
   map_option timeout_time
     (map_of (routing_table (initialize_routing_table 0 all_ids router_A)) ''B'') = Some 0 \<and>
   (0 :: real) \<noteq> 0 + ROUTE_TIMEOUT"
  using router_A_ready_table
  by (simp add: router_A_ready_def router_A_eq Link_init_def is_operational_def ROUTE_TIMEOUT_def)

text \<open>
  C10. The timer sweep leaves a VALID entry whose timeout_time is 0 exactly as it is; in
  particular the row that \<open>initialize_routing_table\<close> installs for an operational neighbour
  is still VALID, with timeout_time 0, after a sweep at any later time.
\<close>

theorem unarmed_timeout_never_expires:
  "(map_of (routing_table r) d = Some e \<and> status e = VALID \<and> timeout_time e = 0 \<longrightarrow>
      map_of (routing_table (fst (snd (check_timeouts now (r, st))))) d = Some e) \<and>
   (distinct (map fst (neighbors r)) \<and> map_of (neighbors r) n = Some l \<and> is_operational l \<and>
    n \<in> set all_routers \<longrightarrow>
      (\<exists>e'. map_of (routing_table (fst (snd (check_timeouts now
                    (initialize_routing_table now0 all_routers r, st))))) n = Some e' \<and>
            status e' = VALID \<and> timeout_time e' = 0))"
proof (intro conjI impI)
  assume a: "map_of (routing_table r) d = Some e \<and> status e = VALID \<and> timeout_time e = 0"
  show "map_of (routing_table (fst (snd (check_timeouts now (r, st))))) d = Some e"
    unfolding check_timeouts_table
    by (rule for_entries_lookup) (use a in \<open>simp_all add: timeout_entry_unarmed\<close>)
next
  let ?r = "initialize_routing_table now0 all_routers r"
  let ?e = "\<lparr>destination = n, cost = Fin (link_cost l), next_hop = Some n, status = VALID,
            last_update_time = now0, timeout_time = 0, garbage_time = 0\<rparr>"
  assume "distinct (map fst (neighbors r)) \<and> map_of (neighbors r) n = Some l \<and>
          is_operational l \<and> n \<in> set all_routers"
  then have "map_of (routing_table ?r) n = Some ?e"
    by (simp add: initialize_routing_table_entry base_entry_def direct_entry_def
                  RouteEntry_init_def)
  then have "map_of (routing_table (fst (snd (check_timeouts now (?r, st))))) n = Some ?e"
    unfolding check_timeouts_table
    by (rule for_entries_lookup) (simp add: timeout_entry_unarmed)
  then show "\<exists>e'. map_of (routing_table (fst (snd (check_timeouts now (?r, st))))) n = Some e' \<and>
                 status e' = VALID \<and> timeout_time e' = 0"
    by simp
qed

theorem unarmed_timeout_never_expires_witness:
  "map_of (routing_table router_A_via_B) ''C'' =
     Some \<lparr>destination = ''C'', cost = Fin 5, next_hop = Some ''C'', status = VALID,
           last_update_time = 0, timeout_time = 0, garbage_time = 0\<rparr> \<and>
   map_of (routing_table (fst (snd (check_timeouts 101 (router_A_via_B, NetworkStats_init))))) ''C'' =
     Some \<lparr>destination = ''C'', cost = Fin 5, next_hop = Some ''C'', status = VALID,
           last_update_time = 0, timeout_time = 0, garbage_time = 0\<rparr> \<and>
   distinct (map fst (neighbors router_A_via_B)) \<and>
   map_of (neighbors router_A_via_B) ''B'' = Some (Link_init ''A'' ''B'' 2) \<and>
   is_operational (Link_init ''A'' ''B'' 2) \<and> ''B'' \<in> set all_ids \<and>
   (\<exists>e'. map_of (routing_table (fst (snd (check_timeouts 101
                 (initialize_routing_table 0 all_ids router_A_via_B, NetworkStats_init))))) ''B'' = Some e' \<and>
         status e' = VALID \<and> timeout_time e' = 0)"
proof -
  let ?e = "\<lparr>destination = ''C'', cost = Fin 5, next_hop = Some ''C'', status = VALID,
           last_update_time = 0, timeout_time = 0, garbage_time = 0\<rparr>"
  have h1: "map_of (routing_table router_A_via_B) ''C'' = Some ?e \<and> status ?e = VALID \<and>
            timeout_time ?e = 0"
    by (simp add: router_A_via_B_table)
  have h2: "distinct (map fst (neighbors router_A_via_B)) \<and>
            map_of (neighbors router_A_via_B) ''B'' = Some (Link_init ''A'' ''B'' 2) \<and>
            is_operational (Link_init ''A'' ''B'' 2) \<and> ''B'' \<in> set all_ids"
    by (simp add: router_A_via_B_rest is_operational_def Link_init_def all_ids_def)
  from unarmed_timeout_never_expires
         [where r = router_A_via_B and d = "''C''" and e = ?e and now = 101
            and st = NetworkStats_init and n = "''B''" and l = "Link_init ''A'' ''B'' 2"
            and all_routers = all_ids and ?now0.0 = 0]
  have "map_of (routing_table (fst (snd (check_timeouts 101 (router_A_via_B, NetworkStats_init))))) ''C'' = Some ?e"
    and "\<exists>e'. map_of (routing_table (fst (snd (check_timeouts 101
                 (initialize_routing_table 0 all_ids router_A_via_B, NetworkStats_init))))) ''B'' = Some e' \<and>
         status e' = VALID \<and> timeout_time e' = 0"
    using h1 h2 by blast+
  then show ?thesis using h1 h2 by blast
qed

text \<open>
  C8. In every state a router can reach, the row for its own identifier has cost 0, the
  router itself as next hop, and status VALID.
\<close>

theorem self_route_invariant:
  "reachable r \<Longrightarrow>
   (\<exists>e. map_of (routing_table r) (router_id r) = Some e \<and>
        cost e = Fin 0 \<and> next_hop e = Some (router_id r) \<and> status e = VALID)"
  by (drule reachable_self_inv) (auto simp: self_inv_def self_route_ok_def split: option.splits)

theorem self_route_invariant_witness:
  "reachable (fst (snd (check_timeouts 101 (initialize_routing_table 0 all_ids router_A, NetworkStats_init)))) \<and>
   (\<exists>e. map_of (routing_table (fst (snd (check_timeouts 101
                (initialize_routing_table 0 all_ids router_A, NetworkStats_init)))))
              (router_id (fst (snd (check_timeouts 101
                (initialize_routing_table 0 all_ids router_A, NetworkStats_init))))) = Some e \<and>
        cost e = Fin 0 \<and>
        next_hop e = Some (router_id (fst (snd (check_timeouts 101
                (initialize_routing_table 0 all_ids router_A, NetworkStats_init))))) \<and>
        status e = VALID)"
proof -
  have "reachable (initialize_routing_table 0 all_ids router_A)"
    by (rule reachable.initialized) (simp_all add: router_A_eq all_ids_def)
  then have h: "reachable (fst (snd (check_timeouts 101
                  (initialize_routing_table 0 all_ids router_A, NetworkStats_init))))"
    by (rule reachable.swept)
  show ?thesis
    using h self_route_invariant [OF h] by blast
qed

text \<open>
  C5. \<open>restart_simulation\<close> resets the statistics and forces every link UP, but it
  re-initialises the routing tables before it does so: in a network whose link is DOWN when
  the restart is requested, the rows for the neighbours across that link are written as
  unreachable, although a fresh initialisation of the same topology with the link UP makes
  them VALID at the link cost.
\<close>

theorem restart_with_failed_link:
  "map (link_status \<circ> snd) (links network_AB_down) = [DOWN, DOWN] \<and>
   map (link_status \<circ> snd) (links (restart_simulation 50 network_AB_down)) = [UP, UP] \<and>
   stats (restart_simulation 50 network_AB_down) = NetworkStats_init \<and>
   map_of (routing_table (the (map_of (routers (restart_simulation 50 network_AB_down)) ''A''))) ''B'' =
     Some \<lparr>destination = ''B'', cost = Infty, next_hop = None, status = INVALID,
           last_update_time = 50, timeout_time = 0, garbage_time = 0\<rparr> \<and>
   map_of (routing_table (the (map_of (routers (initialize_routing_tables 50 network_AB)) ''A''))) ''B'' =
     Some \<lparr>destination = ''B'', cost = Fin 2, next_hop = Some ''B'', status = VALID,
           last_update_time = 50, timeout_time = 0, garbage_time = 0\<rparr>"
  by (simp add: restart_simulation_def initialize_routing_tables_def network_AB_down_eq
        network_AB_def mark_link_def add_neighbor_def AsyncRouter_init_def Link_init_def link_up_def
        NetworkStats_init_def init_defs)

end
